theory Spec2Isabelle
  imports Main
begin

section \<open>Values, arrays and errors\<close>

text \<open>
  The grids of the program are JavaScript arrays of arrays of numbers. A cell read
  outside a row yields \<open>undefined\<close>, and a property read on \<open>undefined\<close> (a row that
  does not exist) throws a \<open>TypeError\<close>. Both are written out: a cell value is a
  number or \<open>Undefined\<close>, and a computation returns \<open>error + 'a\<close>. The numbers are
  integers: the program stores 0 and 1 only, and compares cells with \<open>=== 1\<close>.
\<close>

datatype jsval = Num int | Undefined

datatype error = TypeError

type_synonym row = "jsval list"
type_synonym grid = "row list"

text \<open>\<open>grid[r]\<close>: the row, or nothing when \<open>r\<close> is no index of the array.\<close>

definition rowAt :: "grid \<Rightarrow> int \<Rightarrow> row option" where
  "rowAt g r = (if 0 \<le> r \<and> r < int (length g) then Some (g ! nat r) else None)"

text \<open>\<open>arr[c]\<close> on an existing row: \<open>undefined\<close> outside the row.\<close>

definition cellOf :: "row \<Rightarrow> int \<Rightarrow> jsval" where
  "cellOf xs c = (if 0 \<le> c \<and> c < int (length xs) then xs ! nat c else Undefined)"

text \<open>\<open>grid[r][c]\<close>: throws when \<open>grid[r]\<close> is \<open>undefined\<close>.\<close>

definition cellAt :: "grid \<Rightarrow> int \<Rightarrow> int \<Rightarrow> error + jsval" where
  "cellAt g r c = (case rowAt g r of None \<Rightarrow> Inl TypeError | Some xs \<Rightarrow> Inr (cellOf xs c))"

text \<open>
  \<open>arr[c] = v\<close> for \<open>c \<ge> 0\<close>: inside the row the cell is overwritten; at or beyond
  its end JavaScript extends the array, and the skipped positions (holes) read as
  \<open>undefined\<close>.
\<close>

definition setCell :: "row \<Rightarrow> nat \<Rightarrow> jsval \<Rightarrow> row" where
  "setCell xs c v =
     (if c < length xs then xs[c := v] else xs @ replicate (c - length xs) Undefined @ [v])"

text \<open>\<open>nextGrid[r][c] = v\<close>: throws when \<open>nextGrid[r]\<close> is \<open>undefined\<close>.\<close>

definition assign :: "grid \<Rightarrow> nat \<Rightarrow> nat \<Rightarrow> jsval \<Rightarrow> error + grid" where
  "assign ng r c v =
     (if r < length ng then Inr (ng[r := setCell (ng ! r) c v]) else Inl TypeError)"

text \<open>
  A loop body that may throw, run over the elements of a list in order
  (\<open>Array.prototype.forEach\<close>, and the \<open>for\<close> loops over \<open>0 .. n - 1\<close>): the first
  throw ends the loop.
\<close>

fun forEach :: "('s \<Rightarrow> 'a \<Rightarrow> error + 's) \<Rightarrow> 'a list \<Rightarrow> 's \<Rightarrow> error + 's" where
  "forEach f [] s = Inr s"
| "forEach f (x # xs) s = (case f s x of Inl e \<Rightarrow> Inl e | Inr s' \<Rightarrow> forEach f xs s')"


section \<open>The module of \<open>part_000\<close>\<close>

text \<open>
  The module-level grid literal, and the two constants computed from it once, when the
  script is loaded (\<open>const numRows = grid.length; const numCols = grid[0].length\<close>).
\<close>

definition initial_grid :: grid where
  "initial_grid = map (map Num)
     [[0, 1, 0, 0, 1],
      [0, 1, 0, 0, 1],
      [0, 1, 0, 0, 1],
      [0, 0, 0, 0, 0],
      [1, 1, 1, 0, 0]]"

definition numRows :: int where
  "numRows = int (length initial_grid)"

definition numCols :: int where
  "numCols = int (length (initial_grid ! 0))"

definition directions :: "(int \<times> int) list" where
  "directions =
     [(-1, -1), (-1, 0), (-1, 1),
      (0, -1),           (0, 1),
      (1, -1),  (1, 0),  (1, 1)]"

text \<open>
  The callback of \<open>directions.forEach\<close> in \<open>countLiveNeighbors\<close>. The bounds are the
  module's \<open>numRows\<close> and \<open>numCols\<close>, not the lengths of the argument; \<open>&&\<close> reads
  \<open>grid[newRow][newCol]\<close> only after the four comparisons have passed.
\<close>

definition visit :: "grid \<Rightarrow> int \<Rightarrow> int \<Rightarrow> nat \<Rightarrow> int \<times> int \<Rightarrow> error + nat" where
  "visit g row col liveNeighbors d =
     (let newRow = row + fst d; newCol = col + snd d in
      if newRow \<ge> 0 \<and> newRow < numRows \<and> newCol \<ge> 0 \<and> newCol < numCols then
        (case cellAt g newRow newCol of
           Inl e \<Rightarrow> Inl e
         | Inr v \<Rightarrow> Inr (if v = Num 1 then liveNeighbors + 1 else liveNeighbors))
      else Inr liveNeighbors)"

definition countLiveNeighbors :: "grid \<Rightarrow> int \<Rightarrow> int \<Rightarrow> error + nat" where
  "countLiveNeighbors g row col = forEach (visit g row col) directions 0"

text \<open>
  The body of the inner loop of \<open>gameOfLife\<close>, at cell \<open>(row, col)\<close>: \<open>g\<close> is the
  argument, \<open>ng\<close> is \<open>nextGrid\<close>.
\<close>

definition cellStep :: "grid \<Rightarrow> nat \<Rightarrow> grid \<Rightarrow> nat \<Rightarrow> error + grid" where
  "cellStep g row ng col =
     (case countLiveNeighbors g (int row) (int col) of
        Inl e \<Rightarrow> Inl e
      | Inr liveNeighbors \<Rightarrow>
          (case cellAt g (int row) (int col) of
             Inl e \<Rightarrow> Inl e
           | Inr v \<Rightarrow>
               if v = Num 1 then
                 (if liveNeighbors < 2 \<or> liveNeighbors > 3 then assign ng row col (Num 0)
                  else if liveNeighbors = 2 \<or> liveNeighbors = 3 then assign ng row col (Num 1)
                  else Inr ng)
               else
                 (if liveNeighbors = 3 then assign ng row col (Num 1) else Inr ng)))"

definition rowStep :: "grid \<Rightarrow> grid \<Rightarrow> nat \<Rightarrow> error + grid" where
  "rowStep g ng row = forEach (cellStep g row) [0 ..< nat numCols] ng"

text \<open>
  \<open>gameOfLife(grid)\<close> on values: \<open>nextGrid\<close> starts as the copy
  \<open>grid.map(arr => [...arr])\<close>, which has the cells of the argument.
\<close>

definition gameOfLife :: "grid \<Rightarrow> error + grid" where
  "gameOfLife g = forEach (rowStep g) [0 ..< nat numRows] g"

section \<open>The module of \<open>evaluate.js\<close>\<close>

text \<open>
  The second script keeps the grid in a module-level variable, which
  \<open>computeNextGeneration\<close> reads and replaces, and \<open>countLiveNeighbors(row, col)\<close>
  reads. Its literal, constants and offsets are its own.
\<close>

record module_ev =
  grid :: grid

definition initial_grid_ev :: grid where
  "initial_grid_ev = map (map Num)
     [[0, 1, 0, 0, 1],
      [0, 1, 0, 0, 1],
      [0, 1, 0, 0, 1],
      [0, 0, 0, 0, 0],
      [1, 1, 1, 0, 0]]"

definition numRows_ev :: int where
  "numRows_ev = int (length initial_grid_ev)"

definition numCols_ev :: int where
  "numCols_ev = int (length (initial_grid_ev ! 0))"

definition directions_ev :: "(int \<times> int) list" where
  "directions_ev =
     [(-1, -1),
      (-1, 0),
      (-1, 1),
      (0, -1),
      (0, 1),
      (1, -1),
      (1, 0),
      (1, 1)]"

definition visit_ev :: "module_ev \<Rightarrow> int \<Rightarrow> int \<Rightarrow> nat \<Rightarrow> int \<times> int \<Rightarrow> error + nat" where
  "visit_ev s row col liveNeighbors d =
     (let newRow = row + fst d; newCol = col + snd d in
      if newRow \<ge> 0 \<and> newRow < numRows_ev \<and> newCol \<ge> 0 \<and> newCol < numCols_ev then
        (case cellAt (grid s) newRow newCol of
           Inl e \<Rightarrow> Inl e
         | Inr v \<Rightarrow> Inr (if v = Num 1 then liveNeighbors + 1 else liveNeighbors))
      else Inr liveNeighbors)"

definition countLiveNeighbors_ev :: "module_ev \<Rightarrow> int \<Rightarrow> int \<Rightarrow> error + nat" where
  "countLiveNeighbors_ev s row col = forEach (visit_ev s row col) directions_ev 0"

text \<open>
  The body of the inner loop of \<open>computeNextGeneration\<close>: a live cell that survives is
  not written (``no action needed'').
\<close>

definition cellStep_ev :: "module_ev \<Rightarrow> nat \<Rightarrow> grid \<Rightarrow> nat \<Rightarrow> error + grid" where
  "cellStep_ev s row ng col =
     (case countLiveNeighbors_ev s (int row) (int col) of
        Inl e \<Rightarrow> Inl e
      | Inr liveNeighbors \<Rightarrow>
          (case cellAt (grid s) (int row) (int col) of
             Inl e \<Rightarrow> Inl e
           | Inr v \<Rightarrow>
               if v = Num 1 then
                 (if liveNeighbors < 2 \<or> liveNeighbors > 3 then assign ng row col (Num 0)
                  else Inr ng)
               else
                 (if liveNeighbors = 3 then assign ng row col (Num 1) else Inr ng)))"

definition rowStep_ev :: "module_ev \<Rightarrow> grid \<Rightarrow> nat \<Rightarrow> error + grid" where
  "rowStep_ev s ng row = forEach (cellStep_ev s row) [0 ..< nat numCols_ev] ng"

text \<open>
  \<open>createGridDisplay\<close> rebuilds the page from the grid. Of the page only the class of
  each cell is kept (\<open>alive\<close> or \<open>dead\<close>); the reads \<open>grid[row][col]\<close> are the part
  that can throw.
\<close>

definition renderCell :: "module_ev \<Rightarrow> nat \<Rightarrow> string list \<Rightarrow> nat \<Rightarrow> error + string list" where
  "renderCell s row rowDiv col =
     (case cellAt (grid s) (int row) (int col) of
        Inl e \<Rightarrow> Inl e
      | Inr v \<Rightarrow> Inr (rowDiv @ [if v = Num 1 then ''alive'' else ''dead'']))"

definition renderRow :: "module_ev \<Rightarrow> string list list \<Rightarrow> nat \<Rightarrow> error + string list list" where
  "renderRow s gridContainer row =
     (case forEach (renderCell s row) [0 ..< nat numCols_ev] [] of
        Inl e \<Rightarrow> Inl e
      | Inr rowDiv \<Rightarrow> Inr (gridContainer @ [rowDiv]))"

definition createGridDisplay_ev :: "module_ev \<Rightarrow> error + string list list" where
  "createGridDisplay_ev s = forEach (renderRow s) [0 ..< nat numRows_ev] []"

text \<open>
  \<open>computeNextGeneration()\<close>: the new module state, and the error if the call threw.
  A throw inside the loops leaves the variable as it was; \<open>grid = nextGrid\<close> comes
  before the display is rebuilt.
\<close>

definition computeNextGeneration_ev :: "module_ev \<Rightarrow> module_ev \<times> error option" where
  "computeNextGeneration_ev s =
     (case forEach (rowStep_ev s) [0 ..< nat numRows_ev] (grid s) of
        Inl e \<Rightarrow> (s, Some e)
      | Inr nextGrid \<Rightarrow>
          (let s' = s\<lparr>grid := nextGrid\<rparr> in
           case createGridDisplay_ev s' of
             Inl e \<Rightarrow> (s', Some e)
           | Inr page \<Rightarrow> (s', None)))"


section \<open>\<open>gameOfLife\<close> on a store of row arrays\<close>

text \<open>
  Rows are mutable arrays, and a grid holds references to them. The store is the list
  of the row arrays allocated so far, an address is a position in it, and a grid is
  the list of the addresses of its rows (the outer arrays are never written by
  \<open>gameOfLife\<close>). \<open>[...arr]\<close> allocates a new row at the end of the store.
\<close>

type_synonym addr = nat
type_synonym heap = "row list"
type_synonym gref = "addr list"

definition deref :: "heap \<Rightarrow> gref \<Rightarrow> grid" where
  "deref h g = map (\<lambda>a. h ! a) g"

definition allocated :: "heap \<Rightarrow> gref \<Rightarrow> bool" where
  "allocated h g = list_all (\<lambda>a. a < length h) g"

definition copyRow :: "addr \<Rightarrow> heap \<times> gref \<Rightarrow> heap \<times> gref" where
  "copyRow a hn = (fst hn @ [fst hn ! a], snd hn @ [length (fst hn)])"

definition deepCopy :: "heap \<Rightarrow> gref \<Rightarrow> heap \<times> gref" where
  "deepCopy h g = fold copyRow g (h, [])"

definition assign_heap :: "heap \<Rightarrow> gref \<Rightarrow> nat \<Rightarrow> nat \<Rightarrow> jsval \<Rightarrow> heap \<times> error option" where
  "assign_heap h ng r c v =
     (if r < length ng then (h[ng ! r := setCell (h ! (ng ! r)) c v], None)
      else (h, Some TypeError))"

fun forEach_heap :: "(heap \<Rightarrow> 'a \<Rightarrow> heap \<times> error option) \<Rightarrow> 'a list \<Rightarrow> heap \<Rightarrow> heap \<times> error option" where
  "forEach_heap f [] h = (h, None)"
| "forEach_heap f (x # xs) h =
     (case f h x of (h', Some e) \<Rightarrow> (h', Some e) | (h', None) \<Rightarrow> forEach_heap f xs h')"

text \<open>
  The loop body reads the argument \<open>g\<close> in the store as it is at that moment, after
  the writes of the earlier cells.
\<close>

definition countLiveNeighbors_heap :: "heap \<Rightarrow> gref \<Rightarrow> int \<Rightarrow> int \<Rightarrow> error + nat" where
  "countLiveNeighbors_heap h g row col = countLiveNeighbors (deref h g) row col"

definition cellStep_heap :: "gref \<Rightarrow> gref \<Rightarrow> nat \<Rightarrow> heap \<Rightarrow> nat \<Rightarrow> heap \<times> error option" where
  "cellStep_heap g ng row h col =
     (case countLiveNeighbors_heap h g (int row) (int col) of
        Inl e \<Rightarrow> (h, Some e)
      | Inr liveNeighbors \<Rightarrow>
          (case cellAt (deref h g) (int row) (int col) of
             Inl e \<Rightarrow> (h, Some e)
           | Inr v \<Rightarrow>
               if v = Num 1 then
                 (if liveNeighbors < 2 \<or> liveNeighbors > 3 then assign_heap h ng row col (Num 0)
                  else if liveNeighbors = 2 \<or> liveNeighbors = 3 then assign_heap h ng row col (Num 1)
                  else (h, None))
               else
                 (if liveNeighbors = 3 then assign_heap h ng row col (Num 1) else (h, None))))"

definition rowStep_heap :: "gref \<Rightarrow> gref \<Rightarrow> heap \<Rightarrow> nat \<Rightarrow> heap \<times> error option" where
  "rowStep_heap g ng h row = forEach_heap (cellStep_heap g ng row) [0 ..< nat numCols] h"

definition gameOfLife_heap :: "heap \<Rightarrow> gref \<Rightarrow> heap \<times> (error + gref)" where
  "gameOfLife_heap h g =
     (case deepCopy h g of
        (h1, nextGrid) \<Rightarrow>
          (case forEach_heap (rowStep_heap g nextGrid) [0 ..< nat numRows] h1 of
             (h2, Some e) \<Rightarrow> (h2, Inl e)
           | (h2, None) \<Rightarrow> (h2, Inr nextGrid)))"

text \<open>What a caller sees of a call: the error, or the cells of the returned grid.\<close>

definition outcome :: "heap \<times> (error + gref) \<Rightarrow> error + grid" where
  "outcome p = (case snd p of Inl e \<Rightarrow> Inl e | Inr ng \<Rightarrow> Inr (deref (fst p) ng))"


section \<open>The rules, as the specification words them\<close>

text \<open>
  The eight offsets \<open>{-1,0,1}\<^sup>2\<close> without \<open>(0,0)\<close>; a coordinate is in the grid when it is
  a position of a row of the grid; a cell is ALIVE when it holds 1.
\<close>

definition offsets :: "(int \<times> int) list" where
  "offsets = filter (\<lambda>d. d \<noteq> (0, 0)) (List.product [-1, 0, 1] [-1, 0, 1])"

definition inGrid :: "grid \<Rightarrow> int \<Rightarrow> int \<Rightarrow> bool" where
  "inGrid g r c =
     (if 0 \<le> r \<and> r < int (length g) then 0 \<le> c \<and> c < int (length (g ! nat r)) else False)"

definition aliveAt :: "grid \<Rightarrow> int \<Rightarrow> int \<Rightarrow> bool" where
  "aliveAt g r c = (if inGrid g r c then g ! nat r ! nat c = Num 1 else False)"

definition spec_liveNeighbors :: "grid \<Rightarrow> int \<Rightarrow> int \<Rightarrow> nat" where
  "spec_liveNeighbors g row col =
     length (filter (\<lambda>d. aliveAt g (row + fst d) (col + snd d)) offsets)"

text \<open>The five cases of the stepper, in the order of the specification.\<close>

definition spec_nextCell :: "jsval \<Rightarrow> nat \<Rightarrow> jsval" where
  "spec_nextCell v n =
     (if v = Num 1 \<and> n < 2 then Num 0
      else if v = Num 1 \<and> n > 3 then Num 0
      else if v = Num 1 \<and> (n = 2 \<or> n = 3) then Num 1
      else if v = Num 0 \<and> n = 3 then Num 1
      else v)"

text \<open>Grids of a given shape, and grids of zeros and ones.\<close>

definition hasDims :: "grid \<Rightarrow> int \<Rightarrow> int \<Rightarrow> bool" where
  "hasDims g rows cols = (int (length g) = rows \<and> list_all (\<lambda>xs. int (length xs) = cols) g)"

definition binary :: "grid \<Rightarrow> bool" where
  "binary g = list_all (list_all (\<lambda>v. v = Num 0 \<or> v = Num 1)) g"

definition allDead :: "grid \<Rightarrow> bool" where
  "allDead g = list_all (list_all (\<lambda>v. v = Num 0)) g"


section \<open>What the loops compute\<close>

text \<open>
  The test that \<open>visit\<close> applies to one offset, and the number of offsets that pass
  it: the count over the window \<open>[0, numRows) \<times> [0, numCols)\<close> of the module.
\<close>

definition probeAlive :: "grid \<Rightarrow> int \<Rightarrow> int \<Rightarrow> int \<times> int \<Rightarrow> bool" where
  "probeAlive g row col d =
     (let newRow = row + fst d; newCol = col + snd d in
      newRow \<ge> 0 \<and> newRow < numRows \<and> newCol \<ge> 0 \<and> newCol < numCols \<and>
      cellOf (g ! nat newRow) newCol = Num 1)"

definition windowCount :: "grid \<Rightarrow> int \<Rightarrow> int \<Rightarrow> nat" where
  "windowCount g row col = length (filter (probeAlive g row col) directions)"

text \<open>
  The coordinates that pass the four comparisons of \<open>visit\<close>, in the order of the
  offsets: the reads \<open>grid[newRow][newCol]\<close> of one call of \<open>countLiveNeighbors\<close>;
  and the callback at one of them.
\<close>

definition probes :: "int \<Rightarrow> int \<Rightarrow> (int \<times> int) list" where
  "probes row col =
     filter (\<lambda>p. fst p \<ge> 0 \<and> fst p < numRows \<and> snd p \<ge> 0 \<and> snd p < numCols)
       (map (\<lambda>d. (row + fst d, col + snd d)) directions)"

definition readCell :: "grid \<Rightarrow> nat \<Rightarrow> int \<times> int \<Rightarrow> error + nat" where
  "readCell g liveNeighbors p =
     (case cellAt g (fst p) (snd p) of
        Inl e \<Rightarrow> Inl e
      | Inr v \<Rightarrow> Inr (if v = Num 1 then liveNeighbors + 1 else liveNeighbors))"

text \<open>
  The value that the body of the inner loop stores in \<open>nextGrid\<close>, if it stores one,
  from the cell and its count; and a row and a grid after the loops have passed the
  first \<open>k\<close> columns and rows.
\<close>

definition written :: "jsval \<Rightarrow> nat \<Rightarrow> jsval option" where
  "written v n =
     (if v = Num 1 then
        (if n < 2 \<or> n > 3 then Some (Num 0) else if n = 2 \<or> n = 3 then Some (Num 1) else None)
      else (if n = 3 then Some (Num 1) else None))"

definition sweepCell :: "grid \<Rightarrow> nat \<Rightarrow> nat \<Rightarrow> jsval \<Rightarrow> jsval" where
  "sweepCell g row col old =
     (case written (cellOf (g ! row) (int col)) (windowCount g (int row) (int col)) of
        None \<Rightarrow> old | Some v \<Rightarrow> v)"

definition sweepRow :: "grid \<Rightarrow> nat \<Rightarrow> nat \<Rightarrow> row \<Rightarrow> row" where
  "sweepRow g row k xs =
     map (\<lambda>c. if c < k then sweepCell g row c (xs ! c) else xs ! c) [0 ..< length xs]"

definition sweepGrid :: "grid \<Rightarrow> nat \<Rightarrow> grid \<Rightarrow> grid" where
  "sweepGrid g k ng =
     map (\<lambda>r. if r < k then sweepRow g r (nat numCols) (ng ! r) else ng ! r) [0 ..< length ng]"

text \<open>
  A grid covers the window of the module when it has at least \<open>numRows\<close> rows and each
  of the first \<open>numRows\<close> rows has at least \<open>numCols\<close> cells.
\<close>

definition covers :: "grid \<Rightarrow> bool" where
  "covers g = (numRows \<le> int (length g) \<and> list_all (\<lambda>xs. numCols \<le> int (length xs)) (take (nat numRows) g))"

text \<open>
  The loop invariant of the copy: from cell \<open>(row, col)\<close> on, in the order of the
  loops, every cell of the argument is still in \<open>nextGrid\<close> as it was copied.
\<close>

definition untouched :: "grid \<Rightarrow> grid \<Rightarrow> nat \<Rightarrow> nat \<Rightarrow> bool" where
  "untouched g ng row col =
     (length ng = length g \<and>
      (\<forall>r c. r < length g \<longrightarrow> c < length (g ! r) \<longrightarrow> (row < r \<or> (row = r \<and> col \<le> c)) \<longrightarrow>
         c < length (ng ! r) \<and> ng ! r ! c = g ! r ! c))"

text \<open>The corners of a grid, by its own lengths.\<close>

definition corner :: "grid \<Rightarrow> int \<Rightarrow> int \<Rightarrow> bool" where
  "corner g row col =
     ((row = 0 \<or> row = int (length g) - 1) \<and> (col = 0 \<or> col = int (length (g ! 0)) - 1))"

text \<open>Grids used as examples: the blinker of the README, and grids of other sizes.\<close>

definition blinker :: grid where
  "blinker = map (map Num) [[0, 1, 0], [0, 1, 0], [0, 1, 0]]"

definition wide :: grid where
  "wide = map (map Num)
     [[0, 0, 0, 0, 0, 1],
      [0, 0, 0, 0, 0, 0],
      [0, 0, 0, 0, 0, 0],
      [0, 0, 0, 0, 0, 0],
      [0, 0, 0, 0, 0, 0]]"

definition narrow :: grid where
  "narrow = map (map Num) [[0, 0, 1], [0, 0, 1], [0, 0, 1], [0, 0, 1], [0, 0, 1]]"

definition small :: grid where
  "small = map (map Num) [[0, 0], [0, 0]]"

definition dead3 :: grid where
  "dead3 = map (map Num) [[0, 0, 0], [0, 0, 0], [0, 0, 0]]"

definition dead5 :: grid where
  "dead5 = replicate 5 (replicate 5 (Num 0))"


section \<open>The module constants\<close>

lemma numRows_eq: "numRows = 5"
  by (simp add: numRows_def initial_grid_def)

lemma numCols_eq: "numCols = 5"
  by (simp add: numCols_def initial_grid_def)

lemma numRows_ev_eq: "numRows_ev = numRows"
  by (simp add: numRows_ev_def numRows_def initial_grid_ev_def initial_grid_def)

lemma numCols_ev_eq: "numCols_ev = numCols"
  by (simp add: numCols_ev_def numCols_def initial_grid_ev_def initial_grid_def)

lemma directions_ev_eq: "directions_ev = directions"
  by (simp add: directions_ev_def directions_def)

lemma offsets_eq: "offsets = directions"
  by (simp add: offsets_def directions_def)


section \<open>Loops\<close>

lemma forEach_append:
  "forEach f (xs @ ys) s = (case forEach f xs s of Inl e \<Rightarrow> Inl e | Inr s' \<Rightarrow> forEach f ys s')"
  by (induction xs arbitrary: s) (auto split: sum.splits)

lemma forEach_fixed:
  "(\<And>x. x \<in> set xs \<Longrightarrow> f s x = Inr s) \<Longrightarrow> forEach f xs s = Inr s"
  by (induction xs) auto

lemma forEach_Inr_step:
  assumes "forEach f xs s = Inr s'" and "x \<in> set xs"
  shows "\<exists>s1 s2. f s1 x = Inr s2"
  using assms
proof (induction xs arbitrary: s)
  case Nil
  then show ?case by simp
next
  case (Cons y ys)
  then show ?case
    by (cases "f s y") (auto split: sum.splits)
qed

lemma forEach_total:
  assumes "\<And>s x. x \<in> set xs \<Longrightarrow> \<exists>s'. f s x = Inr s'"
  shows "\<exists>s'. forEach f xs s = Inr s'"
  using assms
proof (induction xs arbitrary: s)
  case Nil
  then show ?case by simp
next
  case (Cons y ys)
  then obtain s1 where "f s y = Inr s1" by (meson list.set_intros(1))
  moreover have "\<exists>s'. forEach f ys s1 = Inr s'"
    using Cons by (meson list.set_intros(2))
  ultimately show ?case by simp
qed


section \<open>Counting neighbours\<close>

lemma visit_eq:
  assumes "numRows \<le> int (length g)"
  shows "visit g row col n d = Inr (if probeAlive g row col d then n + 1 else n)"
  using assms by (simp add: visit_def probeAlive_def cellAt_def rowAt_def Let_def)

lemma forEach_visit:
  assumes "numRows \<le> int (length g)"
  shows "forEach (visit g row col) ds n = Inr (n + length (filter (probeAlive g row col) ds))"
  using assms by (induction ds arbitrary: n) (simp_all add: visit_eq)

lemma countLiveNeighbors_window:
  "numRows \<le> int (length g) \<Longrightarrow> countLiveNeighbors g row col = Inr (windowCount g row col)"
  by (simp add: countLiveNeighbors_def windowCount_def forEach_visit)

lemma windowCount_le: "windowCount g row col \<le> 8"
proof -
  have "windowCount g row col \<le> length directions"
    unfolding windowCount_def by (rule length_filter_le)
  then show ?thesis by (simp add: directions_def)
qed

lemma forEach_visit_probes:
  "forEach (visit g row col) ds n =
   forEach (readCell g)
     (filter (\<lambda>p. fst p \<ge> 0 \<and> fst p < numRows \<and> snd p \<ge> 0 \<and> snd p < numCols)
        (map (\<lambda>d. (row + fst d, col + snd d)) ds)) n"
  by (induction ds arbitrary: n) (simp_all add: visit_def readCell_def Let_def split: sum.split)

lemma countLiveNeighbors_probes:
  "countLiveNeighbors g row col = forEach (readCell g) (probes row col) 0"
  by (simp add: countLiveNeighbors_def probes_def forEach_visit_probes)

lemma forEach_readCell_le:
  "forEach (readCell g) ps n = Inr m \<Longrightarrow> m \<le> n + length ps"
proof (induction ps arbitrary: n)
  case Nil
  then show ?case by simp
next
  case (Cons p ps)
  then obtain k where k: "readCell g n p = Inr k" and rest: "forEach (readCell g) ps k = Inr m"
    by (auto split: sum.splits)
  have "k \<le> n + 1"
    using k by (auto simp: readCell_def split: sum.splits if_splits)
  moreover have "m \<le> k + length ps" using rest by (rule Cons.IH)
  ultimately show ?case by simp
qed


section \<open>The stepper on grids that cover the window\<close>

lemma cellStep_eq:
  assumes "numRows \<le> int (length g)" and "row < nat numRows"
  shows "cellStep g row ng col =
     (case written (cellOf (g ! row) (int col)) (windowCount g (int row) (int col)) of
        None \<Rightarrow> Inr ng | Some v \<Rightarrow> assign ng row col v)"
proof -
  have "row < length g" using assms by linarith
  then show ?thesis
    using assms(1)
    by (simp add: cellStep_def countLiveNeighbors_window cellAt_def rowAt_def written_def)
qed

lemma sweepRow_length [simp]: "length (sweepRow g row k xs) = length xs"
  by (simp add: sweepRow_def)

lemma sweepRow_0 [simp]: "sweepRow g row 0 xs = xs"
  by (simp add: sweepRow_def map_nth)

lemma sweepRow_nth:
  "c < length xs \<Longrightarrow>
   sweepRow g row k xs ! c = (if c < k then sweepCell g row c (xs ! c) else xs ! c)"
  by (simp add: sweepRow_def)

lemma sweepRow_Suc:
  assumes "k < length xs"
  shows "sweepRow g row (Suc k) xs = (sweepRow g row k xs)[k := sweepCell g row k (xs ! k)]"
proof (rule nth_equalityI)
  show "length (sweepRow g row (Suc k) xs) = length ((sweepRow g row k xs)[k := sweepCell g row k (xs ! k)])"
    by simp
next
  fix i
  assume "i < length (sweepRow g row (Suc k) xs)"
  then have i: "i < length xs" by simp
  show "sweepRow g row (Suc k) xs ! i = (sweepRow g row k xs)[k := sweepCell g row k (xs ! k)] ! i"
    using i by (simp add: sweepRow_nth nth_list_update less_Suc_eq)
qed

lemma sweepRow_Suc_None:
  assumes "k < length xs"
    and "written (cellOf (g ! row) (int k)) (windowCount g (int row) (int k)) = None"
  shows "sweepRow g row (Suc k) xs = sweepRow g row k xs"
proof -
  have "sweepCell g row k (xs ! k) = sweepRow g row k xs ! k"
    using assms by (simp add: sweepRow_nth sweepCell_def)
  then show ?thesis
    using assms(1) by (simp add: sweepRow_Suc)
qed

lemma sweepRow_Suc_Some:
  assumes "k < length xs"
    and "written (cellOf (g ! row) (int k)) (windowCount g (int row) (int k)) = Some v"
  shows "sweepRow g row (Suc k) xs = (sweepRow g row k xs)[k := v]"
  using assms by (simp add: sweepRow_Suc sweepCell_def)

lemma inner_loop:
  assumes "numRows \<le> int (length g)" and "row < nat numRows" and "row < length ng"
    and "k \<le> length (ng ! row)"
  shows "forEach (cellStep g row) [0 ..< k] ng = Inr (ng[row := sweepRow g row k (ng ! row)])"
  using assms(4)
proof (induction k)
  case 0
  then show ?case by simp
next
  case (Suc k)
  let ?mid = "ng[row := sweepRow g row k (ng ! row)]"
  have mid: "forEach (cellStep g row) [0 ..< k] ng = Inr ?mid"
    using Suc by simp
  have k: "k < length (ng ! row)" using Suc.prems by simp
  have step: "cellStep g row ?mid k = Inr (ng[row := sweepRow g row (Suc k) (ng ! row)])"
  proof (cases "written (cellOf (g ! row) (int k)) (windowCount g (int row) (int k))")
    case None
    then show ?thesis
      using assms(1-3) k by (simp add: cellStep_eq sweepRow_Suc_None)
  next
    case (Some v)
    then show ?thesis
      using assms(1-3) k
      by (simp add: cellStep_eq assign_def setCell_def sweepRow_Suc_Some)
  qed
  show ?case
    by (simp add: forEach_append mid step)
qed

lemma rowStep_eq:
  assumes "numRows \<le> int (length g)" and "row < nat numRows" and "row < length ng"
    and "nat numCols \<le> length (ng ! row)"
  shows "rowStep g ng row = Inr (ng[row := sweepRow g row (nat numCols) (ng ! row)])"
  unfolding rowStep_def using assms by (rule inner_loop)

lemma sweepGrid_length [simp]: "length (sweepGrid g k ng) = length ng"
  by (simp add: sweepGrid_def)

lemma sweepGrid_nth:
  "r < length ng \<Longrightarrow>
   sweepGrid g k ng ! r = (if r < k then sweepRow g r (nat numCols) (ng ! r) else ng ! r)"
  by (simp add: sweepGrid_def)

lemma sweepGrid_0 [simp]: "sweepGrid g 0 ng = ng"
  by (simp add: sweepGrid_def map_nth)

lemma sweepGrid_Suc:
  assumes "k < length ng"
  shows "sweepGrid g (Suc k) ng = (sweepGrid g k ng)[k := sweepRow g k (nat numCols) (ng ! k)]"
proof (rule nth_equalityI)
  show "length (sweepGrid g (Suc k) ng) =
        length ((sweepGrid g k ng)[k := sweepRow g k (nat numCols) (ng ! k)])"
    by simp
next
  fix i
  assume "i < length (sweepGrid g (Suc k) ng)"
  then have i: "i < length ng" by simp
  show "sweepGrid g (Suc k) ng ! i =
        (sweepGrid g k ng)[k := sweepRow g k (nat numCols) (ng ! k)] ! i"
    using i by (simp add: sweepGrid_nth nth_list_update less_Suc_eq)
qed

lemma outer_loop:
  assumes "numRows \<le> int (length g)" and "nat numRows \<le> length ng"
    and wide: "\<And>r. r < nat numRows \<Longrightarrow> nat numCols \<le> length (ng ! r)"
    and "k \<le> nat numRows"
  shows "forEach (rowStep g) [0 ..< k] ng = Inr (sweepGrid g k ng)"
  using assms(4)
proof (induction k)
  case 0
  then show ?case by simp
next
  case (Suc k)
  have mid: "forEach (rowStep g) [0 ..< k] ng = Inr (sweepGrid g k ng)"
    using Suc by simp
  have k: "k < nat numRows" "k < length ng"
    using Suc.prems assms(2) by simp_all
  have "rowStep g (sweepGrid g k ng) k =
        Inr ((sweepGrid g k ng)[k := sweepRow g k (nat numCols) (sweepGrid g k ng ! k)])"
    using assms(1) k wide [OF k(1)] by (intro rowStep_eq) (simp_all add: sweepGrid_nth)
  then have step: "rowStep g (sweepGrid g k ng) k = Inr (sweepGrid g (Suc k) ng)"
    using k by (simp add: sweepGrid_Suc sweepGrid_nth)
  show ?case
    by (simp add: forEach_append mid step)
qed

lemma covers_rows: "covers g \<Longrightarrow> numRows \<le> int (length g)"
  by (simp add: covers_def)

lemma covers_cols:
  assumes "covers g" and "r < nat numRows"
  shows "nat numCols \<le> length (g ! r)"
proof -
  have "nat numRows \<le> length g"
    using covers_rows [OF assms(1)] by linarith
  then have "r < length (take (nat numRows) g)"
    using assms(2) by simp
  then have "numCols \<le> int (length (take (nat numRows) g ! r))"
    using assms(1) by (simp add: covers_def list_all_length)
  then show ?thesis
    using assms(2) by simp
qed

lemma gameOfLife_covers:
  assumes "covers g"
  shows "gameOfLife g = Inr (sweepGrid g (nat numRows) g)"
  unfolding gameOfLife_def
proof (rule outer_loop)
  show "numRows \<le> int (length g)" using assms by (rule covers_rows)
  then show "nat numRows \<le> length g" by simp
  show "\<And>r. r < nat numRows \<Longrightarrow> nat numCols \<le> length (g ! r)"
    using assms by (rule covers_cols)
  show "nat numRows \<le> nat numRows" by simp
qed

lemma sweepGrid_shape: "map length (sweepGrid g k ng) = map length ng"
  by (rule nth_equalityI) (simp_all add: sweepGrid_nth)


section \<open>Grids of the module's dimensions, and the worded rules\<close>

lemma hasDims_length: "hasDims g rows cols \<Longrightarrow> int (length g) = rows"
  by (simp add: hasDims_def)

lemma hasDims_row: "hasDims g rows cols \<Longrightarrow> r < length g \<Longrightarrow> int (length (g ! r)) = cols"
  by (simp add: hasDims_def list_all_length)

lemma hasDims_covers:
  assumes "hasDims g numRows numCols"
  shows "covers g"
proof -
  have "list_all (\<lambda>xs. numCols \<le> int (length xs)) (take (nat numRows) g)"
    using assms by (simp add: list_all_length hasDims_row)
  then show ?thesis
    using hasDims_length [OF assms] by (simp add: covers_def)
qed

lemma hasDims_shape:
  assumes "hasDims g rows cols" and "map length g' = map length g"
  shows "hasDims g' rows cols"
proof -
  have len: "length g' = length g"
    using assms(2) by (rule map_eq_imp_length_eq)
  have "\<And>r. r < length g \<Longrightarrow> length (g' ! r) = length (g ! r)"
    using assms(2) len by (metis nth_map)
  then show ?thesis
    using assms(1) len by (simp add: hasDims_def list_all_length)
qed

lemma probeAlive_spec:
  assumes "hasDims g numRows numCols"
  shows "probeAlive g row col d = aliveAt g (row + fst d) (col + snd d)"
proof (cases "0 \<le> row + fst d \<and> row + fst d < numRows")
  case True
  then have "nat (row + fst d) < length g"
    using hasDims_length [OF assms] by linarith
  then have "int (length (g ! nat (row + fst d))) = numCols"
    using assms by (rule hasDims_row [rotated])
  then show ?thesis
    using True hasDims_length [OF assms]
    by (auto simp: probeAlive_def aliveAt_def inGrid_def cellOf_def Let_def)
next
  case False
  then show ?thesis
    using hasDims_length [OF assms]
    by (auto simp: probeAlive_def aliveAt_def inGrid_def Let_def)
qed

lemma windowCount_spec:
  assumes "hasDims g numRows numCols"
  shows "windowCount g row col = spec_liveNeighbors g row col"
proof -
  have "probeAlive g row col = (\<lambda>d. aliveAt g (row + fst d) (col + snd d))"
    by (rule ext) (rule probeAlive_spec [OF assms])
  then show ?thesis
    by (simp add: windowCount_def spec_liveNeighbors_def offsets_eq)
qed

lemma spec_liveNeighbors_le: "spec_liveNeighbors g row col \<le> 8"
proof -
  have "spec_liveNeighbors g row col \<le> length offsets"
    unfolding spec_liveNeighbors_def by (rule length_filter_le)
  then show ?thesis by (simp add: offsets_eq directions_def)
qed

lemma written_spec:
  assumes "v = Num 0 \<or> v = Num 1"
  shows "(case written v n of None \<Rightarrow> v | Some w \<Rightarrow> w) = spec_nextCell v n"
  using assms by (auto simp: written_def spec_nextCell_def)

lemma binary_cell:
  assumes "binary g" and "r < length g" and "c < length (g ! r)"
  shows "g ! r ! c = Num 0 \<or> g ! r ! c = Num 1"
  using assms by (simp add: binary_def list_all_length)

lemma sweep_cell_spec:
  assumes dims: "hasDims g numRows numCols" and bin: "binary g"
    and r: "r < nat numRows" and c: "c < nat numCols"
  shows "sweepGrid g (nat numRows) g ! r ! c =
         spec_nextCell (g ! r ! c) (spec_liveNeighbors g (int r) (int c))"
proof -
  have rl: "r < length g" using hasDims_length [OF dims] r by linarith
  have cl: "c < length (g ! r)" using hasDims_row [OF dims rl] c by linarith
  have "sweepGrid g (nat numRows) g ! r ! c = sweepCell g r c (g ! r ! c)"
    using rl cl r c by (simp add: sweepGrid_nth sweepRow_nth)
  also have "\<dots> = spec_nextCell (g ! r ! c) (spec_liveNeighbors g (int r) (int c))"
    using cl binary_cell [OF bin rl cl]
    by (simp add: sweepCell_def cellOf_def windowCount_spec [OF dims] written_spec)
  finally show ?thesis .
qed

lemma probes_inGrid:
  assumes "hasDims g numRows numCols"
  shows "list_all (\<lambda>p. inGrid g (fst p) (snd p)) (probes row col)"
proof -
  have "inGrid g r c" if "0 \<le> r" "r < numRows" "0 \<le> c" "c < numCols" for r c
  proof -
    have "nat r < length g" using that hasDims_length [OF assms] by linarith
    then have "int (length (g ! nat r)) = numCols"
      using assms by (rule hasDims_row [rotated])
    then show ?thesis
      using that hasDims_length [OF assms] by (simp add: inGrid_def)
  qed
  then show ?thesis
    by (auto simp: probes_def list_all_iff)
qed

lemma corner_probes:
  assumes "row = 0 \<or> row = numRows - 1" and "col = 0 \<or> col = numCols - 1"
  shows "length (probes row col) \<le> 3"
  using assms by (auto simp: probes_def directions_def numRows_eq numCols_eq)

text \<open>
  The worded count is the number of live cells among the neighbours of the cell: the
  coordinates other than the cell itself at distance at most one in each direction.
\<close>

lemma set_offsets: "set offsets = {d \<in> {-1, 0, 1} \<times> {-1, 0, 1}. d \<noteq> (0, 0)}"
  by (simp only: offsets_def set_filter set_product list.set)

lemma offsets_iff:
  "d \<in> set offsets \<longleftrightarrow> fst d \<in> {-1, 0, 1} \<and> snd d \<in> {-1, 0, 1} \<and> d \<noteq> (0, 0)"
  by (simp only: set_offsets mem_Collect_eq mem_Times_iff conj_assoc)

lemma distinct_offsets: "distinct offsets"
  by (simp add: offsets_eq directions_def)

lemma neighbours_image:
  "(\<lambda>d. (row + fst d, col + snd d)) ` set offsets =
   {p. p \<noteq> (row, col) \<and> \<bar>fst p - row\<bar> \<le> 1 \<and> \<bar>snd p - col\<bar> \<le> 1}"
proof (intro set_eqI iffI)
  fix p :: "int \<times> int"
  assume "p \<in> (\<lambda>d. (row + fst d, col + snd d)) ` set offsets"
  then obtain d where d: "d \<in> set offsets" and p: "p = (row + fst d, col + snd d)"
    by (rule imageE)
  from d have "fst d \<in> {-1, 0, 1} \<and> snd d \<in> {-1, 0, 1} \<and> d \<noteq> (0, 0)"
    by (rule iffD1 [OF offsets_iff])
  then have "fst d \<in> {-1, 0, 1}" "snd d \<in> {-1, 0, 1}" "d \<noteq> (0, 0)"
    by blast+
  then have "\<bar>fst d\<bar> \<le> 1" "\<bar>snd d\<bar> \<le> 1" "fst d \<noteq> 0 \<or> snd d \<noteq> 0"
    by (auto simp: prod_eq_iff)
  then show "p \<in> {p. p \<noteq> (row, col) \<and> \<bar>fst p - row\<bar> \<le> 1 \<and> \<bar>snd p - col\<bar> \<le> 1}"
    using p by auto
next
  fix p :: "int \<times> int"
  assume p: "p \<in> {p. p \<noteq> (row, col) \<and> \<bar>fst p - row\<bar> \<le> 1 \<and> \<bar>snd p - col\<bar> \<le> 1}"
  let ?d = "(fst p - row, snd p - col)"
  have "fst ?d \<in> {-1, 0, 1}" "snd ?d \<in> {-1, 0, 1}"
    using p by auto
  moreover have "?d \<noteq> (0, 0)"
    using p by (cases p) auto
  ultimately have "?d \<in> set offsets"
    by (simp only: offsets_iff simp_thms)
  moreover have "p = (row + fst ?d, col + snd ?d)" by simp
  ultimately show "p \<in> (\<lambda>d. (row + fst d, col + snd d)) ` set offsets"
    by (rule rev_image_eqI)
qed

lemma spec_liveNeighbors_card:
  "spec_liveNeighbors g row col =
   card {p. p \<noteq> (row, col) \<and> \<bar>fst p - row\<bar> \<le> 1 \<and> \<bar>snd p - col\<bar> \<le> 1 \<and>
            aliveAt g (fst p) (snd p)}"
proof -
  let ?shift = "\<lambda>d :: int \<times> int. (row + fst d, col + snd d)"
  let ?alive = "\<lambda>p. aliveAt g (fst p) (snd p)"
  have inj: "inj_on ?shift (set offsets)"
    by (auto simp: inj_on_def prod_eq_iff)
  have "spec_liveNeighbors g row col = length (filter ?alive (map ?shift offsets))"
    by (simp add: spec_liveNeighbors_def filter_map o_def)
  also have "\<dots> = card (set (filter ?alive (map ?shift offsets)))"
  proof -
    have "distinct (map ?shift offsets)"
      using inj distinct_offsets by (simp add: distinct_map)
    then have "distinct (filter ?alive (map ?shift offsets))"
      by (rule distinct_filter)
    then show ?thesis by (rule distinct_card [symmetric])
  qed
  also have "set (filter ?alive (map ?shift offsets)) =
             {p \<in> ?shift ` set offsets. ?alive p}"
    by (simp only: set_filter set_map)
  also have "\<dots> = {p \<in> {p. p \<noteq> (row, col) \<and> \<bar>fst p - row\<bar> \<le> 1 \<and> \<bar>snd p - col\<bar> \<le> 1}.
                    ?alive p}"
    by (simp only: neighbours_image)
  also have "\<dots> = {p. p \<noteq> (row, col) \<and> \<bar>fst p - row\<bar> \<le> 1 \<and> \<bar>snd p - col\<bar> \<le> 1 \<and> ?alive p}"
    by blast
  finally show ?thesis .
qed


section \<open>All-dead grids\<close>

lemma allDead_cellOf:
  assumes "allDead g" and "r < length g"
  shows "cellOf (g ! r) c \<noteq> Num 1"
proof (cases "0 \<le> c \<and> c < int (length (g ! r))")
  case True
  then have "nat c < length (g ! r)" by linarith
  then have "g ! r ! nat c = Num 0"
    using assms by (simp add: allDead_def list_all_length)
  then show ?thesis using True by (simp add: cellOf_def)
next
  case False
  then show ?thesis by (auto simp: cellOf_def)
qed

lemma allDead_windowCount:
  assumes "allDead g" and "numRows \<le> int (length g)"
  shows "windowCount g row col = 0"
proof -
  have "\<not> probeAlive g row col d" for d
  proof (cases "0 \<le> row + fst d \<and> row + fst d < numRows")
    case True
    then have "nat (row + fst d) < length g" using assms(2) by linarith
    then show ?thesis
      using allDead_cellOf [OF assms(1)] by (simp add: probeAlive_def Let_def)
  next
    case False
    then show ?thesis by (auto simp: probeAlive_def Let_def)
  qed
  then show ?thesis by (simp add: windowCount_def)
qed

lemma allDead_cellStep:
  assumes "allDead g" and "numRows \<le> int (length g)" and "row < nat numRows"
  shows "cellStep g row ng col = Inr ng"
proof -
  have "row < length g" using assms(2,3) by linarith
  then have "cellOf (g ! row) (int col) \<noteq> Num 1"
    using assms(1) by (rule allDead_cellOf [rotated])
  then have "written (cellOf (g ! row) (int col)) (windowCount g (int row) (int col)) = None"
    by (simp add: written_def allDead_windowCount [OF assms(1,2)])
  then show ?thesis
    by (simp add: cellStep_eq [OF assms(2,3)])
qed

lemma allDead_gameOfLife:
  assumes "allDead g" and "numRows \<le> int (length g)"
  shows "gameOfLife g = Inr g"
  unfolding gameOfLife_def
proof (rule forEach_fixed)
  fix row
  assume "row \<in> set [0 ..< nat numRows]"
  then have row: "row < nat numRows" by simp
  show "rowStep g g row = Inr g"
    unfolding rowStep_def
    by (rule forEach_fixed) (rule allDead_cellStep [OF assms row])
qed


section \<open>The two steppers\<close>

text \<open>
  \<open>computeNextGeneration\<close> of \<open>evaluate.js\<close> leaves a surviving cell unwritten where
  \<open>gameOfLife\<close> stores 1 over the copied 1. The two agree because no earlier step of
  the loops has written that cell.
\<close>

lemma untouched_start: "untouched g g 0 0"
  by (simp add: untouched_def)

lemma untouched_next_row: "untouched g ng row k \<Longrightarrow> untouched g ng (Suc row) 0"
  by (auto simp: untouched_def)

lemma untouched_length: "untouched g ng row col \<Longrightarrow> length ng = length g"
  by (simp add: untouched_def)

lemma countLiveNeighbors_ev_eq:
  "countLiveNeighbors_ev s row col = countLiveNeighbors (grid s) row col"
proof -
  have "visit_ev s row col = visit (grid s) row col"
    by (intro ext) (simp add: visit_ev_def visit_def numRows_ev_eq numCols_ev_eq)
  then show ?thesis
    by (simp add: countLiveNeighbors_ev_def countLiveNeighbors_def directions_ev_eq)
qed

lemma cellAt_Num:
  assumes "cellAt g (int r) (int c) = Inr (Num n)"
  shows "r < length g \<and> c < length (g ! r) \<and> g ! r ! c = Num n"
  using assms by (auto simp: cellAt_def rowAt_def cellOf_def split: if_splits)

lemma cellAt_Inr: "cellAt g (int r) c = Inr v \<Longrightarrow> r < length g"
  by (auto simp: cellAt_def rowAt_def split: if_splits)

lemma assign_same:
  assumes "r < length ng" and "c < length (ng ! r)" and "ng ! r ! c = v"
  shows "assign ng r c v = Inr ng"
proof -
  have "(ng ! r)[c := v] = ng ! r"
    using assms(3) by (metis list_update_id)
  then show ?thesis
    using assms(1,2) by (simp add: assign_def setCell_def)
qed

lemma cellStep_ev_eq:
  assumes "untouched (grid s) ng row col"
  shows "cellStep_ev s row ng col = cellStep (grid s) row ng col"
proof (cases "cellAt (grid s) (int row) (int col) = Inr (Num 1)")
  case True
  from cellAt_Num [OF True]
  have "row < length ng \<and> col < length (ng ! row) \<and> ng ! row ! col = Num 1"
    using assms by (simp add: untouched_def)
  then have "assign ng row col (Num 1) = Inr ng"
    by (simp add: assign_same)
  then show ?thesis
    using True
    by (simp add: cellStep_ev_def cellStep_def countLiveNeighbors_ev_eq split: sum.split)
next
  case False
  then show ?thesis
    by (simp add: cellStep_ev_def cellStep_def countLiveNeighbors_ev_eq split: sum.split)
qed

lemma cellStep_result:
  assumes "cellStep g row ng col = Inr ng'"
  shows "ng' = ng \<or> (\<exists>v. row < length ng \<and> ng' = ng[row := setCell (ng ! row) col v])"
  using assms
  by (auto simp: cellStep_def assign_def split: sum.splits if_splits)

lemma setCell_other:
  assumes "c < length xs" and "c \<noteq> col"
  shows "c < length (setCell xs col v) \<and> setCell xs col v ! c = xs ! c"
  using assms by (auto simp: setCell_def nth_append)

lemma untouched_step:
  assumes inv: "untouched g ng row col" and step: "cellStep g row ng col = Inr ng'"
  shows "untouched g ng' row (Suc col)"
proof -
  from cellStep_result [OF step]
  show ?thesis
  proof
    assume "ng' = ng"
    then show ?thesis using inv by (auto simp: untouched_def)
  next
    assume "\<exists>v. row < length ng \<and> ng' = ng[row := setCell (ng ! row) col v]"
    then obtain v where row: "row < length ng"
      and ng': "ng' = ng[row := setCell (ng ! row) col v]" by blast
    show ?thesis
      unfolding untouched_def
    proof (intro conjI allI impI)
      show "length ng' = length g"
        using inv ng' by (simp add: untouched_def)
    next
      fix r c
      assume r: "r < length g" and c: "c < length (g ! r)"
        and later: "row < r \<or> row = r \<and> Suc col \<le> c"
      from inv r c later
      have old: "c < length (ng ! r) \<and> ng ! r ! c = g ! r ! c"
        by (auto simp: untouched_def)
      show "c < length (ng' ! r)"
      proof (cases "r = row")
        case True
        then show ?thesis
          using ng' row old later setCell_other [of c "ng ! row" col v] by simp
      next
        case False
        then show ?thesis using ng' old by simp
      qed
      show "ng' ! r ! c = g ! r ! c"
      proof (cases "r = row")
        case True
        then show ?thesis
          using ng' row old later setCell_other [of c "ng ! row" col v] by simp
      next
        case False
        then show ?thesis using ng' old by simp
      qed
    qed
  qed
qed

lemma inner_loop_ev:
  assumes "untouched (grid s) ng row 0"
  shows "forEach (cellStep_ev s row) [0 ..< k] ng = forEach (cellStep (grid s) row) [0 ..< k] ng \<and>
         (\<forall>ng'. forEach (cellStep (grid s) row) [0 ..< k] ng = Inr ng' \<longrightarrow>
            untouched (grid s) ng' row k)"
proof (induction k)
  case 0
  then show ?case using assms by simp
next
  case (Suc k)
  show ?case
  proof (cases "forEach (cellStep (grid s) row) [0 ..< k] ng")
    case (Inl e)
    then show ?thesis using Suc by (simp add: forEach_append)
  next
    case (Inr mid)
    then have inv: "untouched (grid s) mid row k" using Suc by simp
    have "cellStep_ev s row mid k = cellStep (grid s) row mid k"
      using inv by (rule cellStep_ev_eq)
    moreover have "\<forall>ng'. cellStep (grid s) row mid k = Inr ng' \<longrightarrow>
                     untouched (grid s) ng' row (Suc k)"
      using inv untouched_step by blast
    ultimately show ?thesis
      using Suc Inr by (cases "cellStep (grid s) row mid k") (simp_all add: forEach_append)
  qed
qed

lemma rowStep_ev_eq:
  assumes "untouched (grid s) ng row 0"
  shows "rowStep_ev s ng row = rowStep (grid s) ng row"
  using inner_loop_ev [OF assms, of "nat numCols"]
  by (simp add: rowStep_ev_def rowStep_def numCols_ev_eq)

lemma rowStep_untouched:
  assumes "untouched g ng row 0" and "rowStep g ng row = Inr ng'"
  shows "untouched g ng' (Suc row) 0"
proof -
  have "untouched (grid \<lparr>grid = g\<rparr>) ng row 0" using assms(1) by simp
  from inner_loop_ev [OF this, of "nat numCols"] assms(2)
  have "untouched g ng' row (nat numCols)"
    by (simp add: rowStep_def)
  then show ?thesis by (rule untouched_next_row)
qed

lemma outer_loop_ev:
  assumes "untouched (grid s) ng 0 0"
  shows "forEach (rowStep_ev s) [0 ..< k] ng = forEach (rowStep (grid s)) [0 ..< k] ng \<and>
         (\<forall>ng'. forEach (rowStep (grid s)) [0 ..< k] ng = Inr ng' \<longrightarrow>
            untouched (grid s) ng' k 0)"
proof (induction k)
  case 0
  then show ?case using assms by simp
next
  case (Suc k)
  show ?case
  proof (cases "forEach (rowStep (grid s)) [0 ..< k] ng")
    case (Inl e)
    then show ?thesis using Suc by (simp add: forEach_append)
  next
    case (Inr mid)
    then have inv: "untouched (grid s) mid k 0" using Suc by simp
    have "rowStep_ev s mid k = rowStep (grid s) mid k"
      using inv by (rule rowStep_ev_eq)
    moreover have "\<forall>ng'. rowStep (grid s) mid k = Inr ng' \<longrightarrow> untouched (grid s) ng' (Suc k) 0"
      using inv rowStep_untouched by blast
    ultimately show ?thesis
      using Suc Inr by (cases "rowStep (grid s) mid k") (simp_all add: forEach_append)
  qed
qed

lemma loops_ev_eq:
  "forEach (rowStep_ev s) [0 ..< nat numRows_ev] (grid s) = gameOfLife (grid s)"
  using outer_loop_ev [OF untouched_start, of s "nat numRows"]
  by (simp add: gameOfLife_def numRows_ev_eq)

lemma gameOfLife_length:
  assumes "gameOfLife g = Inr g'"
  shows "length g' = length g"
proof -
  have "untouched (grid \<lparr>grid = g\<rparr>) g 0 0" by (simp add: untouched_start)
  from outer_loop_ev [OF this, of "nat numRows"] assms
  have "untouched g g' (nat numRows) 0"
    by (simp add: gameOfLife_def)
  then show ?thesis by (rule untouched_length)
qed

lemma cellStep_Inr_row:
  assumes "cellStep g row ng col = Inr ng'"
  shows "row < length g"
proof -
  obtain v where "cellAt g (int row) (int col) = Inr v"
    using assms by (auto simp: cellStep_def split: sum.splits)
  then show ?thesis by (rule cellAt_Inr)
qed

lemma gameOfLife_Inr_rows:
  assumes "gameOfLife g = Inr g'"
  shows "nat numRows \<le> length g"
proof -
  have "row < length g" if "row < nat numRows" for row
  proof -
    have "row \<in> set [0 ..< nat numRows]" using that by simp
    from forEach_Inr_step [OF assms [unfolded gameOfLife_def] this]
    obtain s1 s2 where "rowStep g s1 row = Inr s2" by blast
    then have inner: "forEach (cellStep g row) [0 ..< nat numCols] s1 = Inr s2"
      by (simp add: rowStep_def)
    have "0 \<in> set [0 ..< nat numCols]" by (simp add: numCols_eq)
    from forEach_Inr_step [OF inner this]
    obtain t1 t2 where "cellStep g row t1 0 = Inr t2" by blast
    then show ?thesis by (rule cellStep_Inr_row)
  qed
  then have "\<not> length g < nat numRows"
    by (meson less_irrefl)
  then show ?thesis by simp
qed

lemma createGridDisplay_ev_total:
  assumes "nat numRows_ev \<le> length (grid s)"
  shows "\<exists>page. createGridDisplay_ev s = Inr page"
  unfolding createGridDisplay_ev_def
proof (rule forEach_total)
  fix gridContainer row
  assume "row \<in> set [0 ..< nat numRows_ev]"
  then have row: "row < length (grid s)" using assms by simp
  have "\<exists>rowDiv. forEach (renderCell s row) [0 ..< nat numCols_ev] [] = Inr rowDiv"
    by (rule forEach_total) (simp add: renderCell_def cellAt_def rowAt_def row)
  then show "\<exists>s'. renderRow s gridContainer row = Inr s'"
    by (auto simp: renderRow_def)
qed

lemma createGridDisplay_ev_after:
  assumes "gameOfLife g = Inr g'"
  shows "\<exists>page. createGridDisplay_ev (s\<lparr>grid := g'\<rparr>) = Inr page"
proof -
  have "nat numRows_ev \<le> length (grid (s\<lparr>grid := g'\<rparr>))"
    using gameOfLife_Inr_rows [OF assms] gameOfLife_length [OF assms]
    by (simp add: numRows_ev_eq)
  then show ?thesis by (rule createGridDisplay_ev_total)
qed

lemma computeNextGeneration_ev_Inr:
  assumes "gameOfLife (grid s) = Inr g'"
  shows "computeNextGeneration_ev s = (s\<lparr>grid := g'\<rparr>, None)"
proof -
  obtain page where "createGridDisplay_ev (s\<lparr>grid := g'\<rparr>) = Inr page"
    using createGridDisplay_ev_after [OF assms] ..
  then show ?thesis
    using assms by (simp add: computeNextGeneration_ev_def loops_ev_eq Let_def)
qed


section \<open>The store: \<open>gameOfLife\<close> writes only the rows it allocates\<close>

lemma allocated_nth: "allocated h g \<Longrightarrow> a \<in> set g \<Longrightarrow> a < length h"
  by (simp add: allocated_def list_all_iff)

lemma deref_append:
  assumes "allocated h g"
  shows "deref (h @ ngv) g = deref h g"
  using allocated_nth [OF assms] by (simp add: deref_def nth_append)

lemma deref_fresh: "deref (h @ ngv) [length h ..< length h + length ngv] = ngv"
  by (rule nth_equalityI) (simp_all add: deref_def)

lemma upt_shift: "n # [Suc n ..< Suc (n + m)] = [n ..< Suc (n + m)]"
  by (simp add: upt_conv_Cons del: upt_Suc)

lemma fold_copyRow:
  assumes "allocated h g"
  shows "fold copyRow g (h @ xs, ns) =
         (h @ xs @ deref h g,
          ns @ [length h + length xs ..< length h + length xs + length g])"
  using assms
proof (induction g arbitrary: xs ns)
  case Nil
  then show ?case by (simp add: deref_def)
next
  case (Cons a g)
  have a: "a < length h" and rest: "allocated h g"
    using Cons.prems by (simp_all add: allocated_def)
  have "copyRow a (h @ xs, ns) = (h @ (xs @ [h ! a]), ns @ [length h + length xs])"
    using a by (simp add: copyRow_def nth_append)
  then have "fold copyRow (a # g) (h @ xs, ns) =
             fold copyRow g (h @ (xs @ [h ! a]), ns @ [length h + length xs])"
    by simp
  also have "\<dots> = (h @ (xs @ [h ! a]) @ deref h g,
      (ns @ [length h + length xs]) @
      [length h + length (xs @ [h ! a]) ..< length h + length (xs @ [h ! a]) + length g])"
    using rest by (rule Cons.IH)
  also have "\<dots> = (h @ xs @ deref h (a # g),
      ns @ [length h + length xs ..< length h + length xs + length (a # g)])"
    by (simp add: deref_def upt_shift del: upt_Suc)
  finally show ?case .
qed

lemma deepCopy_eq:
  assumes "allocated h g"
  shows "deepCopy h g = (h @ deref h g, [length h ..< length h + length g])"
  using fold_copyRow [OF assms, of "[]" "[]"] by (simp add: deepCopy_def)

lemma assign_heap_sim:
  "assign_heap (h @ ngv) [length h ..< length h + length ngv] r c v =
     (case assign ngv r c v of
        Inl e \<Rightarrow> (h @ ngv, Some e)
      | Inr ngv' \<Rightarrow> (h @ ngv', None))"
  by (simp add: assign_heap_def assign_def list_update_append)

lemma assign_length: "assign ng r c v = Inr ng' \<Longrightarrow> length ng' = length ng"
  by (auto simp: assign_def split: if_splits)

lemma cellStep_length: "cellStep g row ng col = Inr ng' \<Longrightarrow> length ng' = length ng"
  by (auto simp: cellStep_def assign_length split: sum.splits if_splits)

lemma cellStep_heap_sim:
  assumes "allocated h g"
  shows "cellStep_heap g [length h ..< length h + length ngv] row (h @ ngv) col =
     (case cellStep (deref h g) row ngv col of
        Inl e \<Rightarrow> (h @ ngv, Some e)
      | Inr ngv' \<Rightarrow> (h @ ngv', None))"
  by (simp add: cellStep_heap_def cellStep_def countLiveNeighbors_heap_def
      deref_append [OF assms] assign_heap_sim split: sum.split)

text \<open>
  A loop on the store whose body acts on the new rows as a body on grid values does:
  the rows allocated before stay, and the new rows follow the loop on values.
\<close>

lemma forEach_heap_sim:
  assumes body: "\<And>s x. length s = n \<Longrightarrow>
      \<exists>s'. length s' = n \<and> fst (fh (h @ s) x) = h @ s' \<and>
        (snd (fh (h @ s) x) = None \<longrightarrow> f s x = Inr s') \<and>
        (\<forall>e. snd (fh (h @ s) x) = Some e \<longrightarrow> f s x = Inl e)"
    and "length s = n"
  shows "\<exists>s'. length s' = n \<and> fst (forEach_heap fh xs (h @ s)) = h @ s' \<and>
        (snd (forEach_heap fh xs (h @ s)) = None \<longrightarrow> forEach f xs s = Inr s') \<and>
        (\<forall>e. snd (forEach_heap fh xs (h @ s)) = Some e \<longrightarrow> forEach f xs s = Inl e)"
  using assms(2)
proof (induction xs arbitrary: s)
  case Nil
  then show ?case by simp
next
  case (Cons x xs)
  from body [OF Cons.prems, of x]
  obtain s1 where all: "length s1 = n \<and> fst (fh (h @ s) x) = h @ s1 \<and>
        (snd (fh (h @ s) x) = None \<longrightarrow> f s x = Inr s1) \<and>
        (\<forall>e. snd (fh (h @ s) x) = Some e \<longrightarrow> f s x = Inl e)" ..
  then have s1: "length s1 = n" "fst (fh (h @ s) x) = h @ s1"
    and res: "snd (fh (h @ s) x) = None \<longrightarrow> f s x = Inr s1"
      "\<forall>e. snd (fh (h @ s) x) = Some e \<longrightarrow> f s x = Inl e"
    by simp_all
  show ?case
  proof (cases "snd (fh (h @ s) x)")
    case None
    then have "fh (h @ s) x = (h @ s1, None)"
      using s1(2) by (metis prod.collapse)
    moreover have "f s x = Inr s1" using res None by simp
    ultimately show ?thesis
      using Cons.IH [OF s1(1)] by simp
  next
    case (Some e)
    then have "fh (h @ s) x = (h @ s1, Some e)"
      using s1(2) by (metis prod.collapse)
    moreover have "f s x = Inl e" using res Some by simp
    ultimately show ?thesis
      using s1(1) by simp
  qed
qed

lemma cellStep_heap_body:
  assumes "allocated h g" and "length s = n"
  shows "\<exists>s'. length s' = n \<and>
      fst (cellStep_heap g [length h ..< length h + n] row (h @ s) col) = h @ s' \<and>
      (snd (cellStep_heap g [length h ..< length h + n] row (h @ s) col) = None \<longrightarrow>
         cellStep (deref h g) row s col = Inr s') \<and>
      (\<forall>e. snd (cellStep_heap g [length h ..< length h + n] row (h @ s) col) = Some e \<longrightarrow>
         cellStep (deref h g) row s col = Inl e)"
proof (cases "cellStep (deref h g) row s col")
  case (Inl e)
  then show ?thesis
    using assms(2) cellStep_heap_sim [OF assms(1), of s row col] by auto
next
  case (Inr s')
  then show ?thesis
    using assms(2) cellStep_heap_sim [OF assms(1), of s row col] cellStep_length [OF Inr]
    by auto
qed

lemma rowStep_heap_body:
  assumes "allocated h g" and "length s = n"
  shows "\<exists>s'. length s' = n \<and>
      fst (rowStep_heap g [length h ..< length h + n] (h @ s) row) = h @ s' \<and>
      (snd (rowStep_heap g [length h ..< length h + n] (h @ s) row) = None \<longrightarrow>
         rowStep (deref h g) s row = Inr s') \<and>
      (\<forall>e. snd (rowStep_heap g [length h ..< length h + n] (h @ s) row) = Some e \<longrightarrow>
         rowStep (deref h g) s row = Inl e)"
  unfolding rowStep_heap_def rowStep_def
  using assms(2)
  by (rule forEach_heap_sim [rotated]) (rule cellStep_heap_body [OF assms(1)])

lemma loops_heap_sim:
  assumes "allocated h g" and "length s = n"
  shows "\<exists>s'. length s' = n \<and>
      fst (forEach_heap (rowStep_heap g [length h ..< length h + n]) rs (h @ s)) = h @ s' \<and>
      (snd (forEach_heap (rowStep_heap g [length h ..< length h + n]) rs (h @ s)) = None \<longrightarrow>
         forEach (rowStep (deref h g)) rs s = Inr s') \<and>
      (\<forall>e. snd (forEach_heap (rowStep_heap g [length h ..< length h + n]) rs (h @ s)) = Some e \<longrightarrow>
         forEach (rowStep (deref h g)) rs s = Inl e)"
  using assms(2)
  by (rule forEach_heap_sim [rotated]) (rule rowStep_heap_body [OF assms(1)])

lemma gameOfLife_heap_sim:
  assumes "allocated h g"
  shows "\<exists>ngv. length ngv = length g \<and> fst (gameOfLife_heap h g) = h @ ngv \<and>
      (\<forall>e. snd (gameOfLife_heap h g) = Inl e \<longrightarrow> gameOfLife (deref h g) = Inl e) \<and>
      (\<forall>ng. snd (gameOfLife_heap h g) = Inr ng \<longrightarrow>
         ng = [length h ..< length h + length g] \<and> gameOfLife (deref h g) = Inr ngv)"
proof -
  let ?ng = "[length h ..< length h + length g]"
  let ?run = "forEach_heap (rowStep_heap g ?ng) [0 ..< nat numRows] (h @ deref h g)"
  have len: "length (deref h g) = length g" by (simp add: deref_def)
  from loops_heap_sim [OF assms len, of "[0 ..< nat numRows]"]
  obtain ngv where all: "length ngv = length g \<and> fst ?run = h @ ngv \<and>
      (snd ?run = None \<longrightarrow>
         forEach (rowStep (deref h g)) [0 ..< nat numRows] (deref h g) = Inr ngv) \<and>
      (\<forall>e. snd ?run = Some e \<longrightarrow>
         forEach (rowStep (deref h g)) [0 ..< nat numRows] (deref h g) = Inl e)" ..
  then have ngv: "length ngv = length g" "fst ?run = h @ ngv"
    and res: "snd ?run = None \<longrightarrow> gameOfLife (deref h g) = Inr ngv"
      "\<forall>e. snd ?run = Some e \<longrightarrow> gameOfLife (deref h g) = Inl e"
    by (simp_all add: gameOfLife_def)
  have call: "gameOfLife_heap h g =
     (case ?run of (h2, Some e) \<Rightarrow> (h2, Inl e) | (h2, None) \<Rightarrow> (h2, Inr ?ng))"
    by (simp add: gameOfLife_heap_def deepCopy_eq [OF assms])
  show ?thesis
  proof (cases "snd ?run")
    case None
    then have run: "?run = (h @ ngv, None)" using ngv(2) by (metis prod.collapse)
    have "gameOfLife (deref h g) = Inr ngv" using res(1) None by simp
    then show ?thesis using call run ngv(1) by (intro exI [of _ ngv]) simp
  next
    case (Some e)
    then have run: "?run = (h @ ngv, Some e)" using ngv(2) by (metis prod.collapse)
    have "gameOfLife (deref h g) = Inl e" using res(2) Some by simp
    then show ?thesis using call run ngv(1) by (intro exI [of _ ngv]) simp
  qed
qed

lemma gameOfLife_heap_outcome:
  assumes "allocated h g"
  shows "outcome (gameOfLife_heap h g) = gameOfLife (deref h g)"
proof -
  from gameOfLife_heap_sim [OF assms]
  obtain ngv where all: "length ngv = length g \<and> fst (gameOfLife_heap h g) = h @ ngv \<and>
      (\<forall>e. snd (gameOfLife_heap h g) = Inl e \<longrightarrow> gameOfLife (deref h g) = Inl e) \<and>
      (\<forall>ng. snd (gameOfLife_heap h g) = Inr ng \<longrightarrow>
         ng = [length h ..< length h + length g] \<and> gameOfLife (deref h g) = Inr ngv)" ..
  show ?thesis
  proof (cases "snd (gameOfLife_heap h g)")
    case (Inl e)
    then show ?thesis using all by (simp add: outcome_def)
  next
    case (Inr ng)
    then have ng: "ng = [length h ..< length h + length ngv]"
      and run: "gameOfLife (deref h g) = Inr ngv"
      using all by simp_all
    have "fst (gameOfLife_heap h g) = h @ ngv" using all by simp
    then have "outcome (gameOfLife_heap h g) =
               Inr (deref (h @ ngv) [length h ..< length h + length ngv])"
      using Inr ng by (simp add: outcome_def)
    then show ?thesis
      using run by (simp only: deref_fresh)
  qed
qed

lemma gameOfLife_heap_extends:
  assumes "allocated h g"
  shows "\<exists>ngv. fst (gameOfLife_heap h g) = h @ ngv"
proof -
  from gameOfLife_heap_sim [OF assms]
  obtain ngv where all: "length ngv = length g \<and> fst (gameOfLife_heap h g) = h @ ngv \<and>
      (\<forall>e. snd (gameOfLife_heap h g) = Inl e \<longrightarrow> gameOfLife (deref h g) = Inl e) \<and>
      (\<forall>ng. snd (gameOfLife_heap h g) = Inr ng \<longrightarrow>
         ng = [length h ..< length h + length g] \<and> gameOfLife (deref h g) = Inr ngv)" ..
  then show ?thesis by (intro exI [of _ ngv]) simp
qed


section \<open>The functions on grids of the module's size\<close>

text \<open>
  What the two functions do when the argument has the lengths that the module constants
  were computed from, or covers that window. On such grids the constants and the
  lengths of the argument agree, and the loops do what their comments say.
\<close>

text \<open>
  On a grid of zeros and ones with \<open>numRows\<close> rows of \<open>numCols\<close> cells both steppers
  return the grid that the rules give, cell by cell, from the old grid.
\<close>

lemma stepper_rules_at_module_size:
  assumes "hasDims g numRows numCols" and "binary g"
  shows "\<exists>g'. gameOfLife g = Inr g' \<and>
           computeNextGeneration_ev \<lparr>grid = g\<rparr> = (\<lparr>grid = g'\<rparr>, None) \<and>
           hasDims g' numRows numCols \<and>
           (\<forall>r < nat numRows. \<forall>c < nat numCols.
              g' ! r ! c = spec_nextCell (g ! r ! c) (spec_liveNeighbors g (int r) (int c)))"
proof -
  let ?g' = "sweepGrid g (nat numRows) g"
  have run: "gameOfLife g = Inr ?g'"
    using hasDims_covers [OF assms(1)] by (rule gameOfLife_covers)
  have "computeNextGeneration_ev \<lparr>grid = g\<rparr> = (\<lparr>grid = g\<rparr>\<lparr>grid := ?g'\<rparr>, None)"
    by (rule computeNextGeneration_ev_Inr) (simp add: run)
  then have "computeNextGeneration_ev \<lparr>grid = g\<rparr> = (\<lparr>grid = ?g'\<rparr>, None)"
    by simp
  moreover have "hasDims ?g' numRows numCols"
    using assms(1) sweepGrid_shape by (rule hasDims_shape)
  moreover have "\<forall>r < nat numRows. \<forall>c < nat numCols.
      ?g' ! r ! c = spec_nextCell (g ! r ! c) (spec_liveNeighbors g (int r) (int c))"
    using sweep_cell_spec [OF assms] by blast
  ultimately show ?thesis using run by blast
qed

lemma stepper_rules_initial_grid:
  "hasDims initial_grid numRows numCols \<and> binary initial_grid \<and>
   (\<exists>g'. gameOfLife initial_grid = Inr g' \<and>
      computeNextGeneration_ev \<lparr>grid = initial_grid\<rparr> = (\<lparr>grid = g'\<rparr>, None) \<and>
      hasDims g' numRows numCols \<and>
      (\<forall>r < nat numRows. \<forall>c < nat numCols.
         g' ! r ! c =
           spec_nextCell (initial_grid ! r ! c) (spec_liveNeighbors initial_grid (int r) (int c))))"
proof -
  have dims: "hasDims initial_grid numRows numCols" by code_simp
  have bin: "binary initial_grid" by code_simp
  from stepper_rules_at_module_size [OF dims bin] dims bin show ?thesis by simp
qed

text \<open>On such a grid the count is the number of live neighbours inside the grid.\<close>

lemma countLiveNeighbors_at_module_size:
  assumes "hasDims g numRows numCols"
    and "0 \<le> row" and "row < numRows" and "0 \<le> col" and "col < numCols"
  shows "countLiveNeighbors g row col = Inr (spec_liveNeighbors g row col) \<and>
         spec_liveNeighbors g row col \<le> 8"
proof -
  have "numRows \<le> int (length g)"
    using hasDims_length [OF assms(1)] by simp
  then have "countLiveNeighbors g row col = Inr (windowCount g row col)"
    by (rule countLiveNeighbors_window)
  then show ?thesis
    by (simp add: windowCount_spec [OF assms(1)] spec_liveNeighbors_le)
qed

lemma countLiveNeighbors_initial_grid:
  "hasDims initial_grid numRows numCols \<and> (0::int) \<le> 1 \<and> 1 < numRows \<and> (0::int) \<le> 0 \<and> 0 < numCols \<and>
   countLiveNeighbors initial_grid 1 0 = Inr (spec_liveNeighbors initial_grid 1 0) \<and>
   spec_liveNeighbors initial_grid 1 0 \<le> 8"
proof -
  have dims: "hasDims initial_grid numRows numCols" by code_simp
  have row: "(0::int) \<le> 1" "1 < numRows" by (simp_all add: numRows_eq)
  have col: "(0::int) \<le> 0" "0 < numCols" by (simp_all add: numCols_eq)
  from countLiveNeighbors_at_module_size [OF dims row col] dims row col show ?thesis by simp
qed

text \<open>On a grid that covers the window the rows keep their lengths.\<close>

lemma gameOfLife_covers_dimensions:
  assumes "covers g"
  shows "\<exists>g'. gameOfLife g = Inr g' \<and> length g' = length g \<and>
           (\<forall>r < length g. length (g' ! r) = length (g ! r))"
proof -
  let ?g' = "sweepGrid g (nat numRows) g"
  have "gameOfLife g = Inr ?g'"
    using assms by (rule gameOfLife_covers)
  moreover have "length ?g' = length g" by simp
  moreover have "\<forall>r < length g. length (?g' ! r) = length (g ! r)"
    by (simp add: sweepGrid_nth)
  ultimately show ?thesis by blast
qed

lemma gameOfLife_wide_dimensions:
  "covers wide \<and>
   (\<exists>g'. gameOfLife wide = Inr g' \<and> length g' = length wide \<and>
      (\<forall>r < length wide. length (g' ! r) = length (wide ! r)))"
proof -
  have cov: "covers wide" by code_simp
  from gameOfLife_covers_dimensions [OF cov] cov show ?thesis by simp
qed

text \<open>
  At a corner of a grid with \<open>numRows\<close> rows of \<open>numCols\<close> cells the count is at most 3,
  and the coordinates that pass the comparisons are at most 3, all inside the grid.
\<close>

lemma countLiveNeighbors_corner_at_module_size:
  assumes "hasDims g numRows numCols" and "corner g row col"
  shows "(\<exists>n. countLiveNeighbors g row col = Inr n \<and> n \<le> 3) \<and>
         countLiveNeighbors g row col = forEach (readCell g) (probes row col) 0 \<and>
         list_all (\<lambda>p. inGrid g (fst p) (snd p)) (probes row col) \<and>
         length (probes row col) \<le> 3"
proof -
  have rows: "int (length g) = numRows" using assms(1) by (rule hasDims_length)
  then have "0 < length g" by (simp add: numRows_eq)
  then have "int (length (g ! 0)) = numCols"
    using assms(1) by (rule hasDims_row [rotated])
  then have "row = 0 \<or> row = numRows - 1" and "col = 0 \<or> col = numCols - 1"
    using assms(2) rows by (simp_all add: corner_def)
  then have few: "length (probes row col) \<le> 3" by (rule corner_probes)
  have "numRows \<le> int (length g)" using rows by simp
  then have run: "countLiveNeighbors g row col = Inr (windowCount g row col)"
    by (rule countLiveNeighbors_window)
  then have "forEach (readCell g) (probes row col) 0 = Inr (windowCount g row col)"
    by (simp add: countLiveNeighbors_probes)
  then have "windowCount g row col \<le> 0 + length (probes row col)"
    by (rule forEach_readCell_le)
  then have "windowCount g row col \<le> 3" using few by simp
  then show ?thesis
    using run few probes_inGrid [OF assms(1)] countLiveNeighbors_probes by simp
qed

lemma countLiveNeighbors_corner_initial_grid:
  "hasDims initial_grid numRows numCols \<and> corner initial_grid 4 0 \<and>
   (\<exists>n. countLiveNeighbors initial_grid 4 0 = Inr n \<and> n \<le> 3) \<and>
   countLiveNeighbors initial_grid 4 0 = forEach (readCell initial_grid) (probes 4 0) 0 \<and>
   list_all (\<lambda>p. inGrid initial_grid (fst p) (snd p)) (probes 4 0) \<and>
   length (probes 4 0) \<le> 3"
proof -
  have dims: "hasDims initial_grid numRows numCols" by code_simp
  have cor: "corner initial_grid 4 0" by code_simp
  from countLiveNeighbors_corner_at_module_size [OF dims cor] dims cor show ?thesis by blast
qed

text \<open>An all-dead grid with at least \<open>numRows\<close> rows is returned as it is.\<close>

lemma gameOfLife_allDead_rows:
  assumes "allDead g" and "numRows \<le> int (length g)"
  shows "\<exists>g'. gameOfLife g = Inr g' \<and> allDead g' \<and> map length g' = map length g"
  using assms allDead_gameOfLife by blast

lemma gameOfLife_dead5:
  "allDead dead5 \<and> numRows \<le> int (length dead5) \<and>
   (\<exists>g'. gameOfLife dead5 = Inr g' \<and> allDead g' \<and> map length g' = map length dead5)"
proof -
  have dead: "allDead dead5" by code_simp
  have rows: "numRows \<le> int (length dead5)" by code_simp
  from gameOfLife_allDead_rows [OF dead rows] dead rows show ?thesis by simp
qed


section \<open>The claims\<close>

text \<open>
  \<open>gameOfLife(grid)\<close> and \<open>countLiveNeighbors(grid, row, col)\<close> take the grid as a
  parameter, and their loops and comparisons use \<open>numRows\<close> and \<open>numCols\<close> of the module,
  not the lengths of the parameter. The comments of \<open>part_000\<close> say otherwise (``this
  ensures that the logic works for any grid size'', ``check if the neighbor is within
  the bounds of the grid''), and the README gives a 3 by 3 example for
  \<open>gameOfLife(grid)\<close>. On an argument of another size a comparison with the constants
  lets through a coordinate outside the argument, or stops a coordinate inside it.
\<close>

subsection \<open>C1: the rules of the stepper\<close>

text \<open>
  Claim C1 says that for every rectangular grid of zeros and ones the stepper returns
  the grid that the four rules give, so a live cell with fewer than 2 live neighbours
  becomes dead. On the grid of 5 rows of 6 cells whose only live cell is at \<open>(0, 5)\<close>
  the loops of \<open>gameOfLife\<close> stop at column \<open>numCols = 5\<close>: the grid is returned
  unchanged, and the live cell, which has no live neighbour and is dead by the rules,
  is returned alive.
\<close>

theorem gameOfLife_wide:
  "binary wide \<and> hasDims wide 5 6 \<and> gameOfLife wide = Inr wide \<and> wide ! 0 ! 5 = Num 1 \<and>
   spec_nextCell (wide ! 0 ! 5) (spec_liveNeighbors wide 0 5) = Num 0"
  by code_simp


subsection \<open>C2: the neighbour count\<close>

text \<open>
  Claim C2 says that for every rectangular grid and every coordinate inside it
  \<open>countLiveNeighbors\<close> returns the number of live cells among the eight offset
  coordinates that lie in the grid. On the grid of 5 rows of 6 cells, at \<open>(0, 4)\<close>, the
  live neighbour \<open>(0, 5)\<close> lies in the grid, but \<open>newCol < numCols\<close> fails for it: the
  function returns 0 where the count is 1.
\<close>

theorem countLiveNeighbors_wide:
  "hasDims wide 5 6 \<and> countLiveNeighbors wide 0 4 = Inr 0 \<and> spec_liveNeighbors wide 0 4 = 1"
  by code_simp


subsection \<open>C3: the dimensions of the result\<close>

text \<open>
  Claim C3 says that for every grid the result of \<open>gameOfLife\<close> has the rows of the
  argument, each with the same number of cells. On 5 rows of 3 cells with the last
  column alive the inner loop runs on to column \<open>numCols - 1 = 4\<close>: the cell read at
  column 3 of rows 1 to 3 is \<open>undefined\<close>, so it counts as dead, it has three live
  neighbours, and the assignment \<open>nextGrid[row][3] = 1\<close> extends those rows to 4 cells.
\<close>

theorem gameOfLife_narrow:
  "gameOfLife narrow =
     Inr (map (map Num) [[0, 0, 0], [0, 1, 1, 1], [0, 1, 1, 1], [0, 1, 1, 1], [0, 0, 0]]) \<and>
   map length narrow = [3, 3, 3, 3, 3] \<and>
   map length (map (map Num) [[0, 0, 0], [0, 1, 1, 1], [0, 1, 1, 1], [0, 1, 1, 1], [0, 0, 0]]) =
     [3, 4, 4, 4, 3]"
  by code_simp


subsection \<open>C4 and C5: the blinker\<close>

text \<open>
  Claim C4 says that \<open>gameOfLife\<close> maps the 3 by 3 blinker to its horizontal phase. In
  the module as it is, with \<open>numRows = numCols = 5\<close> from the 5 by 5 literal, the call
  throws: at row 2, column 0 the offset \<open>(1, 0)\<close> passes the comparisons with the
  module's constants, and \<open>grid[3][0]\<close> reads a cell of a row that is \<open>undefined\<close>.
\<close>

theorem gameOfLife_blinker: "gameOfLife blinker = Inl TypeError"
  by code_simp

text \<open>
  Claim C5 says that two steps return the blinker. The first step throws, so no second
  step starts.
\<close>

theorem gameOfLife_blinker_twice:
  "(case gameOfLife blinker of Inl e \<Rightarrow> Inl e | Inr g1 \<Rightarrow> gameOfLife g1) = Inl TypeError"
  by code_simp


subsection \<open>C6: corners\<close>

text \<open>
  Claim C6 says that at every corner of every grid of at least 2 rows and 2 columns
  \<open>countLiveNeighbors\<close> reads no coordinate outside the grid, never throws, and returns
  at most 3. On a 2 by 2 grid, at the corner \<open>(1, 0)\<close>, the offset \<open>(1, 0)\<close> gives
  \<open>newRow = 2\<close>, which passes \<open>newRow < numRows\<close>, and the read \<open>grid[2][0]\<close> of a row
  outside the grid throws.
\<close>

theorem countLiveNeighbors_small_corner:
  "hasDims small 2 2 \<and> corner small 1 0 \<and> countLiveNeighbors small 1 0 = Inl TypeError"
  by code_simp


subsection \<open>C7: the argument is not written\<close>

text \<open>
  Claim C7: for every store and every grid in it (each reference of the grid is the
  address of an allocated row, as every reference of the program is; two rows of the
  grid may be the same array), after \<open>gameOfLife\<close>, whether it returns or throws, every
  row array that existed before the call holds what it held, so every cell of the
  argument is unchanged.
\<close>

theorem gameOfLife_heap_frame:
  assumes "allocated h g"
  shows "deref (fst (gameOfLife_heap h g)) g = deref h g \<and>
         take (length h) (fst (gameOfLife_heap h g)) = h"
proof -
  from gameOfLife_heap_extends [OF assms]
  obtain ngv where "fst (gameOfLife_heap h g) = h @ ngv" ..
  then show ?thesis
    by (simp add: deref_append [OF assms])
qed

text \<open>C7 at the grid the module starts with, its rows at addresses 0 to 4.\<close>

theorem gameOfLife_heap_frame_witness:
  "allocated initial_grid [0, 1, 2, 3, 4] \<and>
   deref (fst (gameOfLife_heap initial_grid [0, 1, 2, 3, 4])) [0, 1, 2, 3, 4] =
     deref initial_grid [0, 1, 2, 3, 4] \<and>
   take (length initial_grid) (fst (gameOfLife_heap initial_grid [0, 1, 2, 3, 4])) = initial_grid"
proof -
  have al: "allocated initial_grid [0, 1, 2, 3, 4]" by code_simp
  from gameOfLife_heap_frame [OF al] al show ?thesis by simp
qed


subsection \<open>C8: all-dead grids\<close>

text \<open>
  Claim C8 says that for every all-dead grid \<open>gameOfLife\<close> returns an all-dead grid of
  the same dimensions. On the all-dead 3 by 3 grid the call returns no grid: at row 2,
  column 0 the read \<open>grid[3][0]\<close> throws, as on the blinker.
\<close>

theorem gameOfLife_dead3:
  "allDead dead3 \<and> gameOfLife dead3 = Inl TypeError"
  by code_simp


subsection \<open>C9: the result depends on the cells only\<close>

text \<open>
  Claim C9: two calls of \<open>gameOfLife\<close> on grids with equal cells, in any two stores
  (whatever earlier calls have allocated or written there), have the same outcome: the
  same error, or returned grids with equal cells; and two calls of
  \<open>countLiveNeighbors\<close> on such grids at the same coordinate return the same result.
\<close>

theorem gameOfLife_deterministic:
  assumes "allocated h1 g1" and "allocated h2 g2" and "deref h1 g1 = deref h2 g2"
  shows "outcome (gameOfLife_heap h1 g1) = outcome (gameOfLife_heap h2 g2) \<and>
         countLiveNeighbors_heap h1 g1 row col = countLiveNeighbors_heap h2 g2 row col"
  using assms
  by (simp add: gameOfLife_heap_outcome countLiveNeighbors_heap_def)

text \<open>
  C9 at the grid the module starts with, once in a store that holds only its rows and
  once in a store that holds three more rows before them.
\<close>

theorem gameOfLife_deterministic_witness:
  "allocated initial_grid [0, 1, 2, 3, 4] \<and> allocated (blinker @ initial_grid) [3, 4, 5, 6, 7] \<and>
   deref initial_grid [0, 1, 2, 3, 4] = deref (blinker @ initial_grid) [3, 4, 5, 6, 7] \<and>
   outcome (gameOfLife_heap initial_grid [0, 1, 2, 3, 4]) =
     outcome (gameOfLife_heap (blinker @ initial_grid) [3, 4, 5, 6, 7]) \<and>
   countLiveNeighbors_heap initial_grid [0, 1, 2, 3, 4] 1 0 =
     countLiveNeighbors_heap (blinker @ initial_grid) [3, 4, 5, 6, 7] 1 0"
proof -
  have a1: "allocated initial_grid [0, 1, 2, 3, 4]" by code_simp
  have a2: "allocated (blinker @ initial_grid) [3, 4, 5, 6, 7]" by code_simp
  have eq: "deref initial_grid [0, 1, 2, 3, 4] = deref (blinker @ initial_grid) [3, 4, 5, 6, 7]"
    by code_simp
  from gameOfLife_deterministic [OF a1 a2 eq, of 1 0] a1 a2 eq show ?thesis by simp
qed


subsection \<open>C10: the two implementations\<close>

text \<open>
  Claim C10: for every grid, \<open>computeNextGeneration\<close> of \<open>evaluate.js\<close>, started with
  that grid in its module variable, throws exactly when \<open>gameOfLife\<close> of \<open>part_000\<close>
  throws on it, leaving the variable as it was, and otherwise stores in the variable
  the grid that \<open>gameOfLife\<close> returns.
\<close>

theorem steppers_agree:
  "computeNextGeneration_ev \<lparr>grid = g\<rparr> =
     (case gameOfLife g of
        Inl e \<Rightarrow> (\<lparr>grid = g\<rparr>, Some e)
      | Inr g' \<Rightarrow> (\<lparr>grid = g'\<rparr>, None))"
proof (cases "gameOfLife g")
  case (Inl e)
  then have "forEach (rowStep_ev \<lparr>grid = g\<rparr>) [0 ..< nat numRows_ev] g = Inl e"
    using loops_ev_eq [of "\<lparr>grid = g\<rparr>"] by simp
  then have "computeNextGeneration_ev \<lparr>grid = g\<rparr> = (\<lparr>grid = g\<rparr>, Some e)"
    by (simp add: computeNextGeneration_ev_def)
  then show ?thesis using Inl by simp
next
  case (Inr g')
  then have "computeNextGeneration_ev \<lparr>grid = g\<rparr> = (\<lparr>grid = g\<rparr>\<lparr>grid := g'\<rparr>, None)"
    by (intro computeNextGeneration_ev_Inr) simp
  then show ?thesis using Inr by simp
qed

end
